theory Spec2Isabelle
  imports Complex_Main "HOL-Library.Sublist"
begin

section \<open>Python values and exceptions\<close>

text \<open>
  The exceptions that the modelled code of \<^verbatim>\<open>vllm/compilation/backends.py\<close> can raise.
  A computation that may raise returns \<open>py_error + 'a\<close>, with \<open>Inl\<close> for the exception.
\<close>

datatype py_error =
    KeyError
  | IndexError
  | ValueError
  | AttributeError
  | AssertionError string
  | SyntaxError
  | RuntimeError

subsection \<open>Strings: \<^verbatim>\<open>str(int)\<close>, \<^verbatim>\<open>int(str)\<close>, \<^verbatim>\<open>str.replace\<close>\<close>

definition digit_char :: "nat \<Rightarrow> char" where
  "digit_char d = char_of (48 + d)"

fun str_nat :: "nat \<Rightarrow> string" where
  "str_nat n = (if n < 10 then [digit_char n] else str_nat (n div 10) @ [digit_char (n mod 10)])"

declare str_nat.simps [simp del]

text \<open>\<^verbatim>\<open>str(i)\<close> for a Python int: decimal digits, a leading minus sign when negative.\<close>

definition py_str_int :: "int \<Rightarrow> string" where
  "py_str_int i = (if i < 0 then CHR ''-'' # str_nat (nat (- i)) else str_nat (nat i))"

definition is_digit :: "char \<Rightarrow> bool" where
  "is_digit c = ((48::nat) \<le> of_char c \<and> (of_char c :: nat) \<le> 57)"

definition digit_val :: "char \<Rightarrow> nat" where
  "digit_val c = (of_char c :: nat) - 48"

fun nat_of_digits :: "nat \<Rightarrow> string \<Rightarrow> nat" where
  "nat_of_digits acc [] = acc"
| "nat_of_digits acc (c # cs) = nat_of_digits (10 * acc + digit_val c) cs"

definition parse_nat :: "string \<Rightarrow> py_error + nat" where
  "parse_nat s = (if s \<noteq> [] \<and> list_all is_digit s then Inr (nat_of_digits 0 s) else Inl ValueError)"

text \<open>
  \<^verbatim>\<open>int(s)\<close> on a string: an optional sign followed by decimal digits; anything else
  raises ValueError. (Python also accepts surrounding whitespace and underscores between
  digits; the names parsed here are produced by \<^verbatim>\<open>str\<close> and contain neither.)
\<close>

definition py_int :: "string \<Rightarrow> py_error + int" where
  "py_int s =
     (case s of
        [] \<Rightarrow> Inl ValueError
      | c # cs \<Rightarrow>
          if c = CHR ''-'' then (case parse_nat cs of Inl e \<Rightarrow> Inl e | Inr n \<Rightarrow> Inr (- int n))
          else if c = CHR ''+'' then (case parse_nat cs of Inl e \<Rightarrow> Inl e | Inr n \<Rightarrow> Inr (int n))
          else (case parse_nat s of Inl e \<Rightarrow> Inl e | Inr n \<Rightarrow> Inr (int n)))"

text \<open>
  \<^verbatim>\<open>s.replace(old, new)\<close>: every non-overlapping occurrence of \<open>old\<close>, scanning from the
  left; an empty \<open>old\<close> matches between all characters.
\<close>

function replace :: "string \<Rightarrow> string \<Rightarrow> string \<Rightarrow> string" where
  "replace old new [] = (if old = [] then new else [])"
| "replace old new (c # cs) =
     (if old = [] then new @ c # replace old new cs
      else if prefix old (c # cs) then new @ replace old new (drop (length old) (c # cs))
      else c # replace old new cs)"
  by pat_completeness auto
termination
  by (relation "measure (\<lambda>(old, new, s). length s)") auto

section \<open>The graph splitter\<close>

text \<open>
  An \<^verbatim>\<open>fx.Node\<close> as far as \<^verbatim>\<open>split_graph\<close> reads it: its op kind (\<^verbatim>\<open>node.op\<close>) and the
  string form of its target (\<^verbatim>\<open>str(node.target)\<close>). Nodes are hashed by identity in the
  source; here the identity of a node is its position in \<^verbatim>\<open>graph.graph.nodes\<close>, so a
  node of the graph is a pair of its position and its record.
\<close>

record node =
  op :: string
  target :: string

type_synonym graph_module = "(nat \<times> node) list"

text \<open>The three locals of the first loop of \<^verbatim>\<open>split_graph\<close>.\<close>

record split_state =
  subgraph_id :: int
  node_to_subgraph_id :: "nat \<rightharpoonup> int"
  split_op_graphs :: "int list"

definition split_init :: split_state where
  "split_init = \<lparr>subgraph_id = 0, node_to_subgraph_id = Map.empty, split_op_graphs = []\<rparr>"

text \<open>One iteration of \<^verbatim>\<open>for node in graph.graph.nodes\<close> (lines 238 to 247).\<close>

definition split_step :: "string list \<Rightarrow> split_state \<Rightarrow> nat \<times> node \<Rightarrow> split_state" where
  "split_step ops s kn =
     (let k = fst kn; n = snd kn in
      if op n \<in> {''output'', ''placeholder''} then s
      else if op n = ''call_function'' \<and> target n \<in> set ops then
        (let sid = subgraph_id s + 1 in
         s\<lparr>subgraph_id := sid + 1,
           node_to_subgraph_id := (node_to_subgraph_id s)(k \<mapsto> sid),
           split_op_graphs := split_op_graphs s @ [sid]\<rparr>)
      else s\<lparr>node_to_subgraph_id := (node_to_subgraph_id s)(k \<mapsto> subgraph_id s)\<rparr>)"

definition assign_subgraphs :: "string list \<Rightarrow> node list \<Rightarrow> split_state" where
  "assign_subgraphs ops nodes = foldl (split_step ops) split_init (enumerate 0 nodes)"

text \<open>
  \<^verbatim>\<open>torch.fx.passes.split_module.split_module(graph, None, callback, keep_original_order=True)\<close>
  is a library function. Its model: the callback is asked for the partition of every node
  that is neither a placeholder nor the output, in graph order; each partition id that
  occurs becomes one submodule named \<^verbatim>\<open>submod_<id>\<close> holding the nodes of that partition
  in their original order, and the submodules are created in the order in which their ids
  first occur. A \<^verbatim>\<open>call_module\<close> node brings the module it calls along as a child of its
  submodule, named by its target with the dots replaced.
\<close>

record split_gm =
  submodules :: "(string \<times> graph_module) list"

definition structural :: "node \<Rightarrow> bool" where
  "structural n = (op n \<in> {''output'', ''placeholder''})"

fun ask_callback :: "(nat \<Rightarrow> py_error + int) \<Rightarrow> graph_module \<Rightarrow> py_error + (int \<times> nat \<times> node) list" where
  "ask_callback cb [] = Inr []"
| "ask_callback cb ((k, n) # kns) =
     (if structural n then ask_callback cb kns
      else (case cb k of
              Inl e \<Rightarrow> Inl e
            | Inr pid \<Rightarrow> (case ask_callback cb kns of
                            Inl e \<Rightarrow> Inl e
                          | Inr rest \<Rightarrow> Inr ((pid, k, n) # rest))))"

fun first_occurrences :: "'a list \<Rightarrow> 'a list \<Rightarrow> 'a list" where
  "first_occurrences seen [] = []"
| "first_occurrences seen (x # xs) =
     (if x \<in> set seen then first_occurrences seen xs else x # first_occurrences (x # seen) xs)"

definition submod_name :: "int \<Rightarrow> string" where
  "submod_name pid = ''submod_'' @ py_str_int pid"

definition split_module :: "node list \<Rightarrow> (nat \<Rightarrow> py_error + int) \<Rightarrow> py_error + split_gm" where
  "split_module nodes cb =
     (case ask_callback cb (enumerate 0 nodes) of
        Inl e \<Rightarrow> Inl e
      | Inr tagged \<Rightarrow>
          Inr \<lparr>submodules =
                 map (\<lambda>pid. (submod_name pid, map snd (filter (\<lambda>t. fst t = pid) tagged)))
                     (first_occurrences [] (map fst tagged))\<rparr>)"

text \<open>
  \<^verbatim>\<open>split_gm.named_modules()\<close>: the root module under the empty name, then every
  submodule followed by its children under dotted names.
\<close>

definition child_names :: "string \<times> graph_module \<Rightarrow> string list" where
  "child_names sm =
     map (\<lambda>kn. fst sm @ ''.'' @ replace ''.'' ''_'' (target (snd kn)))
         (filter (\<lambda>kn. op (snd kn) = ''call_module'') (snd sm))"

definition named_modules :: "split_gm \<Rightarrow> string list" where
  "named_modules gm = [] # concat (map (\<lambda>sm. fst sm # child_names sm) (submodules gm))"

definition getattr :: "split_gm \<Rightarrow> string \<Rightarrow> py_error + graph_module" where
  "getattr gm name = (case map_of (submodules gm) name of None \<Rightarrow> Inl AttributeError | Some g \<Rightarrow> Inr g)"

record SplitItem =
  submod_name_of :: string
  graph_id :: int
  is_splitting_graph :: bool
  graph :: graph_module

text \<open>The second loop of \<^verbatim>\<open>split_graph\<close> (lines 263 to 272), over the module names.\<close>

fun collect_outputs :: "split_gm \<Rightarrow> int list \<Rightarrow> string list \<Rightarrow> py_error + SplitItem list" where
  "collect_outputs gm sog [] = Inr []"
| "collect_outputs gm sog (name # names) =
     (if CHR ''.'' \<in> set name \<or> name = [] then collect_outputs gm sog names
      else (case getattr gm name of
              Inl e \<Rightarrow> Inl e
            | Inr submod \<Rightarrow>
                (case py_int (replace ''submod_'' [] name) of
                   Inl e \<Rightarrow> Inl e
                 | Inr gid \<Rightarrow>
                     (case collect_outputs gm sog names of
                        Inl e \<Rightarrow> Inl e
                      | Inr rest \<Rightarrow>
                          Inr (\<lparr>submod_name_of = name, graph_id = gid,
                                is_splitting_graph = (gid \<in> set sog), graph = submod\<rparr> # rest)))))"

definition split_graph :: "node list \<Rightarrow> string list \<Rightarrow> py_error + (split_gm \<times> SplitItem list)" where
  "split_graph nodes ops =
     (let st = assign_subgraphs ops nodes in
      case split_module nodes
             (\<lambda>k. case node_to_subgraph_id st k of None \<Rightarrow> Inl KeyError | Some pid \<Rightarrow> Inr pid) of
        Inl e \<Rightarrow> Inl e
      | Inr gm \<Rightarrow>
          (case collect_outputs gm (split_op_graphs st) (named_modules gm) of
             Inl e \<Rightarrow> Inl e
           | Inr outputs \<Rightarrow> Inr (gm, sort_key graph_id outputs)))"

text \<open>The test of line 241: the node is a boundary (splitting) op.\<close>

definition is_splitting_op :: "string list \<Rightarrow> node \<Rightarrow> bool" where
  "is_splitting_op ops n = (op n = ''call_function'' \<and> target n \<in> set ops)"

text \<open>
  Two notions used to state what \<^verbatim>\<open>split_graph\<close> returns: the nodes of the graph that the
  first loop assigned to partition \<open>pid\<close>, in graph order, and the \<^verbatim>\<open>SplitItem\<close> of that
  partition.
\<close>

definition nodes_of_partition :: "(nat \<rightharpoonup> int) \<Rightarrow> node list \<Rightarrow> int \<Rightarrow> graph_module" where
  "nodes_of_partition m nodes pid =
     filter (\<lambda>kn. \<not> structural (snd kn) \<and> m (fst kn) = Some pid) (enumerate 0 nodes)"

definition item_of_partition :: "split_state \<Rightarrow> node list \<Rightarrow> int \<Rightarrow> SplitItem" where
  "item_of_partition st nodes pid =
     \<lparr>submod_name_of = submod_name pid, graph_id = pid,
      is_splitting_graph = (pid \<in> set (split_op_graphs st)),
      graph = nodes_of_partition (node_to_subgraph_id st) nodes pid\<rparr>"

text \<open>The invariant of the first loop, after the nodes \<open>nodes\<close> have been visited.\<close>

definition split_inv :: "string list \<Rightarrow> node list \<Rightarrow> split_state \<Rightarrow> bool" where
  "split_inv ops nodes s \<longleftrightarrow>
     dom (node_to_subgraph_id s) = {k. k < length nodes \<and> \<not> structural (nodes ! k)} \<and>
     (\<forall>k d. node_to_subgraph_id s k = Some d \<longrightarrow> d \<le> subgraph_id s) \<and>
     (\<forall>d \<in> set (split_op_graphs s). d < subgraph_id s) \<and>
     (\<forall>k d. node_to_subgraph_id s k = Some d \<longrightarrow>
        (d \<in> set (split_op_graphs s) \<longleftrightarrow> is_splitting_op ops (nodes ! k))) \<and>
     (\<forall>k k' d. node_to_subgraph_id s k = Some d \<and> node_to_subgraph_id s k' = Some d \<and>
        d \<in> set (split_op_graphs s) \<longrightarrow> k = k') \<and>
     (\<forall>k d. node_to_subgraph_id s k = Some d \<and>
        (\<forall>j. k \<le> j \<and> j < length nodes \<longrightarrow> \<not> is_splitting_op ops (nodes ! j)) \<longrightarrow>
        d = subgraph_id s)"

text \<open>The partition ids in the order in which \<^verbatim>\<open>split_module\<close> first meets them.\<close>

definition partition_ids :: "split_state \<Rightarrow> node list \<Rightarrow> int list" where
  "partition_ids st nodes =
     first_occurrences []
       (map (\<lambda>kn. the (node_to_subgraph_id st (fst kn)))
            (filter (\<lambda>kn. \<not> structural (snd kn)) (enumerate 0 nodes)))"

section \<open>The compiler manager\<close>

text \<open>
  Literal Python data, as a cache handle can hold it, and the in-memory cache of
  \<^verbatim>\<open>CompilerManager\<close>: a dict from \<^verbatim>\<open>(runtime_shape, graph_index, backend_name)\<close> to the
  handle. \<^verbatim>\<open>None\<close> is the value \<open>PyNone\<close>.
\<close>

datatype pyval =
    PyNone
  | PyInt int
  | PyStr string
  | PyTuple "pyval list"
  | PyList "pyval list"
  | PyDict "(pyval \<times> pyval) list"

type_synonym cache_key = "int option \<times> int \<times> string"

type_synonym cache_dict = "cache_key \<rightharpoonup> pyval"

text \<open>A compiled callable is opaque; \<^verbatim>\<open>Optional[Callable]\<close> is \<open>callable option\<close>.\<close>

datatype callable = Callable nat

text \<open>
  The compiler adaptor (\<^verbatim>\<open>CompilerInterface\<close>) is a collaborator whose classes are not
  part of \<^verbatim>\<open>backends.py\<close>: its \<^verbatim>\<open>compile\<close> and \<^verbatim>\<open>load\<close> methods are taken as functions of
  their arguments, which may raise. \<open>is_inductor_adaptor\<close> is the outcome of
  \<^verbatim>\<open>isinstance(self.compiler, InductorAdaptor)\<close>. The example inputs \<open>'x\<close> and the
  additional inductor config \<open>'c\<close> are passed through unread.
\<close>

record ('x, 'c) compiler_interface =
  compiler_name :: string
  is_inductor_adaptor :: bool
  compiler_compile ::
    "graph_module \<Rightarrow> 'x \<Rightarrow> 'c \<Rightarrow> int option \<Rightarrow> string option \<Rightarrow> py_error + (callable option \<times> pyval)"
  compiler_load ::
    "pyval \<Rightarrow> graph_module \<Rightarrow> 'x \<Rightarrow> int \<Rightarrow> int option \<Rightarrow> py_error + callable option"

text \<open>
  The attributes of a \<^verbatim>\<open>CompilerManager\<close>. \<^verbatim>\<open>disable_cache\<close>, \<^verbatim>\<open>cache_dir\<close> and
  \<^verbatim>\<open>cache_file_path\<close> do not exist before \<^verbatim>\<open>initialize_cache\<close> sets them (\<open>None\<close> here).
\<close>

record ('x, 'c) compiler_manager =
  cache :: cache_dict
  is_cache_updated :: bool
  compiler :: "('x, 'c) compiler_interface"
  disable_cache :: "bool option"
  cache_dir :: "string option"
  cache_file_path :: "string option"

text \<open>\<^verbatim>\<open>CompilerManager.__init__\<close>, with the adaptor that \<^verbatim>\<open>make_compiler\<close> chose.\<close>

definition new_compiler_manager :: "('x, 'c) compiler_interface \<Rightarrow> ('x, 'c) compiler_manager" where
  "new_compiler_manager c =
     \<lparr>cache = Map.empty, is_cache_updated = False, compiler = c,
      disable_cache = None, cache_dir = None, cache_file_path = None\<rparr>"

text \<open>
  What the code reads and writes outside the manager: the file system (regular files by
  path), the environment flag, the clock behind \<^verbatim>\<open>time.time()\<close> (its successive readings),
  the module globals, the shared \<^verbatim>\<open>CompilationConfig\<close> object and \<^verbatim>\<open>compilation_counter\<close>.
  \<open>adaptor_compile_calls\<close> and \<open>split_graph_calls\<close> are not program state: they record the
  calls made to the adaptor's \<^verbatim>\<open>compile\<close> and to \<^verbatim>\<open>split_graph\<close>, so that the number of
  calls can be stated.
\<close>

record world =
  files :: "string \<rightharpoonup> string"
  VLLM_DISABLE_COMPILE_CACHE :: bool
  clock :: "nat \<Rightarrow> real"
  ticks :: nat
  compilation_start_time :: real
  torch_compile_start_time :: real
  config_cache_dir :: string
  config_local_cache_dir :: string
  splitting_ops :: "string list"
  use_cudagraph :: bool
  cudagraph_copy_inputs :: bool
  compilation_time :: real
  rank :: int
  data_parallel_rank :: int
  num_graphs_seen :: int
  num_piecewise_graphs_seen :: int
  num_piecewise_capturable_graphs_seen :: int
  num_backend_compilations :: int
  num_cache_entries_updated :: int
  adaptor_compile_calls :: "(graph_module \<times> int option \<times> string option) list"
  split_graph_calls :: nat

text \<open>\<^verbatim>\<open>time.time()\<close>: the next reading of the clock.\<close>

definition time :: "world \<Rightarrow> real \<times> world" where
  "time w = (clock w (ticks w), w\<lparr>ticks := ticks w + 1\<rparr>)"

text \<open>
  \<^verbatim>\<open>os.path.join(a, b)\<close> for a relative \<open>b\<close> on a POSIX system, and the two library
  functions on the cache file: the safe literal parser \<^verbatim>\<open>ast.literal_eval\<close>, which raises
  on text that is not a literal, and the pretty printer \<^verbatim>\<open>pprint.pformat\<close>; with them
  \<^verbatim>\<open>GraphModule.print_readable\<close> of torch, the text of a stitched graph. They are library
  code and are parameters of the model. The annotation of \<^verbatim>\<open>self.cache\<close> fixes
  the type of what a successful parse yields.
\<close>

definition path_join :: "string \<Rightarrow> string \<Rightarrow> string" where
  "path_join a b = (if a = [] \<or> last a = CHR ''/'' then a @ b else a @ ''/'' @ b)"




text \<open>\<^verbatim>\<open>CompilerManager.load\<close> (the logging left out).\<close>

definition load ::
  "('x, 'c) compiler_manager \<Rightarrow> graph_module \<Rightarrow> 'x \<Rightarrow> int \<Rightarrow> int option \<Rightarrow> py_error + callable option" where
  "load m g example_inputs graph_index runtime_shape =
     (case cache m (runtime_shape, graph_index, compiler_name (compiler m)) of
        None \<Rightarrow> Inr None
      | Some handle \<Rightarrow> compiler_load (compiler m) handle g example_inputs graph_index runtime_shape)"

text \<open>\<^verbatim>\<open>str(runtime_shape)\<close> inside the f-string of the artifact key.\<close>

definition py_str_shape :: "int option \<Rightarrow> string" where
  "py_str_shape s = (case s of None \<Rightarrow> ''None'' | Some i \<Rightarrow> py_str_int i)"

definition artifact_key :: "int option \<Rightarrow> int \<Rightarrow> string" where
  "artifact_key runtime_shape graph_index =
     ''artifact_shape_'' @ py_str_shape runtime_shape @ ''_subgraph_'' @ py_str_int graph_index"

text \<open>
  \<^verbatim>\<open>CompilerManager.compile\<close> (lines 134 to 221, the logging left out). The
  \<^verbatim>\<open>compilation_config\<close> argument is the shared config object of the world.
\<close>

definition compile ::
  "('x, 'c) compiler_manager \<Rightarrow> world \<Rightarrow> graph_module \<Rightarrow> 'x \<Rightarrow> 'c \<Rightarrow> int \<Rightarrow> int \<Rightarrow> int option \<Rightarrow>
   (py_error + callable) \<times> ('x, 'c) compiler_manager \<times> world" where
  "compile m w g example_inputs additional_inductor_config graph_index num_graphs runtime_shape =
     (let w1 = (if graph_index = 0
                then (case time w of (t, w') \<Rightarrow> w'\<lparr>compilation_start_time := t\<rparr>)
                else w);
          w2 = w1\<lparr>num_backend_compilations := num_backend_compilations w1 + 1\<rparr>
      in case load m g example_inputs graph_index runtime_shape of
           Inl e \<Rightarrow> (Inl e, m, w2)
         | Inr (Some compiled_graph) \<Rightarrow>
             (if graph_index = num_graphs - 1
              then (case time w2 of (now, w3) \<Rightarrow> (Inr compiled_graph, m, w3))
              else (Inr compiled_graph, m, w2))
         | Inr None \<Rightarrow>
             (let maybe_key = (if is_inductor_adaptor (compiler m) then None
                               else Some (artifact_key runtime_shape graph_index));
                  w3 = w2\<lparr>adaptor_compile_calls :=
                            adaptor_compile_calls w2 @ [(g, runtime_shape, maybe_key)]\<rparr>
              in case compiler_compile (compiler m) g example_inputs additional_inductor_config
                        runtime_shape maybe_key of
                   Inl e \<Rightarrow> (Inl e, m, w3)
                 | Inr (None, handle) \<Rightarrow> (Inl (AssertionError ''Failed to compile the graph''), m, w3)
                 | Inr (Some compiled_graph, handle) \<Rightarrow>
                     (let stored = (\<not> VLLM_DISABLE_COMPILE_CACHE w3 \<and> handle \<noteq> PyNone);
                          m4 = (if stored
                                then m\<lparr>cache := (cache m)((runtime_shape, graph_index,
                                                           compiler_name (compiler m)) \<mapsto> handle),
                                       is_cache_updated := True\<rparr>
                                else m);
                          w4 = (if stored
                                then w3\<lparr>num_cache_entries_updated := num_cache_entries_updated w3 + 1\<rparr>
                                else w3);
                          w5 = (if graph_index = num_graphs - 1
                                then (case time w4 of (now, w') \<Rightarrow>
                                        w'\<lparr>compilation_time :=
                                             compilation_time w' + (now - compilation_start_time w')\<rparr>)
                                else w4)
                      in (Inr compiled_graph, m4, w5))))"

section \<open>The piecewise interpreter and the backend\<close>

text \<open>
  Arguments of a graph call: a tensor is its rows along the leading dimension, with the
  fact, found by the fake mode of Dynamo when the graph is traced, whether one of its
  sizes is symbolic; a slice \<^verbatim>\<open>input_buffers[i][:n]\<close> is a view of the first \<open>n\<close> rows of
  static buffer \<open>i\<close>, not a copy; anything else is carried as it is.
\<close>

type_synonym tensor = "int list list"


text \<open>
  A \<^verbatim>\<open>VllmBackend\<close> instance. \<open>runtime_units\<close> lists the piecewise backends that the
  interpreter installed in place of the submodules: target, index and the callable
  compiled for the dynamic shape.
\<close>

record ('x, 'c) vllm_backend =
  called :: bool
  backend_prefix :: string
  compiler_manager :: "('x, 'c) compiler_manager"
  backend_graph :: "node list option"
  backend_split_gm :: "split_gm option"
  piecewise_graphs :: "SplitItem list"
  sym_tensor_indices :: "nat list"
  input_buffers :: "tensor list"
  runtime_units :: "(string \<times> nat \<times> callable) list"
















section \<open>Concrete instances\<close>

text \<open>
  A world with caching enabled and a clock that reads 5, 6, 7, ...; a compiler that hands
  back the key it was given as its handle, as the standalone inductor adaptor does; and an
  eager compiler, which compiles to a callable and has no handle.
\<close>

definition example_world :: world where
  "example_world =
     \<lparr>files = Map.empty, VLLM_DISABLE_COMPILE_CACHE = False,
      clock = (\<lambda>n. 5 + real n), ticks = 0, compilation_start_time = 1,
      torch_compile_start_time = 0, config_cache_dir = ''/cache'', config_local_cache_dir = [],
      splitting_ops = [''vllm.unified_attention''], use_cudagraph = False,
      cudagraph_copy_inputs = False, compilation_time = 0, rank = 0, data_parallel_rank = 0,
      num_graphs_seen = 0, num_piecewise_graphs_seen = 0,
      num_piecewise_capturable_graphs_seen = 0, num_backend_compilations = 0,
      num_cache_entries_updated = 0, adaptor_compile_calls = [], split_graph_calls = 0\<rparr>"

definition example_compiler :: "(unit, unit) compiler_interface" where
  "example_compiler =
     \<lparr>compiler_name = ''inductor_standalone'', is_inductor_adaptor = False,
      compiler_compile = (\<lambda>g x c s k. Inr (Some (Callable (length g)),
                            (case k of None \<Rightarrow> PyNone | Some key \<Rightarrow> PyStr key))),
      compiler_load = (\<lambda>h g x i s. Inr (Some (Callable (length g))))\<rparr>"

definition eager_compiler :: "(unit, unit) compiler_interface" where
  "eager_compiler =
     \<lparr>compiler_name = ''eager'', is_inductor_adaptor = False,
      compiler_compile = (\<lambda>g x c s k. Inr (Some (Callable (length g)), PyNone)),
      compiler_load = (\<lambda>h g x i s. Inr None)\<rparr>"







section \<open>Facts about the string functions\<close>

lemma digit_char_is_digit: "d < 10 \<Longrightarrow> is_digit (digit_char d)"
  by (simp add: is_digit_def digit_char_def)

lemma digit_val_digit_char: "d < 10 \<Longrightarrow> digit_val (digit_char d) = d"
  by (simp add: digit_val_def digit_char_def)

lemma str_nat_not_Nil: "str_nat n \<noteq> []"
  by (subst str_nat.simps) simp

lemma str_nat_digits: "list_all is_digit (str_nat n)"
proof (induction n rule: str_nat.induct)
  case (1 n)
  show ?case
  proof (cases "n < 10")
    case True
    then show ?thesis by (subst str_nat.simps) (simp add: digit_char_is_digit)
  next
    case False
    with 1 show ?thesis by (subst str_nat.simps) (simp add: digit_char_is_digit)
  qed
qed

lemma nat_of_digits_snoc: "nat_of_digits acc (cs @ [c]) = 10 * nat_of_digits acc cs + digit_val c"
  by (induction cs arbitrary: acc) simp_all

lemma nat_of_digits_str_nat: "nat_of_digits 0 (str_nat n) = n"
proof (induction n rule: str_nat.induct)
  case (1 n)
  show ?case
  proof (cases "n < 10")
    case True
    then show ?thesis by (subst str_nat.simps) (simp add: digit_val_digit_char)
  next
    case False
    with 1 have "nat_of_digits 0 (str_nat (n div 10)) = n div 10" by simp
    with False show ?thesis
      by (subst str_nat.simps) (simp add: nat_of_digits_snoc digit_val_digit_char)
  qed
qed

lemma parse_nat_str_nat: "parse_nat (str_nat n) = Inr n"
  by (simp add: parse_nat_def str_nat_not_Nil str_nat_digits nat_of_digits_str_nat)

lemma is_digit_not_sign: "is_digit c \<Longrightarrow> c \<noteq> CHR ''-'' \<and> c \<noteq> CHR ''+'' \<and> c \<noteq> CHR ''s'' \<and> c \<noteq> CHR ''.''"
  by (auto simp: is_digit_def)

lemma str_nat_chars: "c \<in> set (str_nat n) \<Longrightarrow> is_digit c"
  using str_nat_digits [of n] by (simp add: list_all_iff)

lemma py_int_py_str_int: "py_int (py_str_int i) = Inr i"
proof (cases "i < 0")
  case True
  then show ?thesis by (simp add: py_int_def py_str_int_def parse_nat_str_nat)
next
  case False
  obtain c cs where s: "str_nat (nat i) = c # cs"
    using str_nat_not_Nil [of "nat i"] by (cases "str_nat (nat i)") auto
  then have "is_digit c" using str_nat_chars [of c "nat i"] by simp
  then have "c \<noteq> CHR ''-''" "c \<noteq> CHR ''+''" using is_digit_not_sign by blast+
  moreover have "parse_nat (c # cs) = Inr (nat i)" using parse_nat_str_nat [of "nat i"] s by simp
  ultimately show ?thesis using False s by (simp add: py_int_def py_str_int_def)
qed

lemma py_str_int_chars: "c \<in> set (py_str_int i) \<Longrightarrow> c \<noteq> CHR ''s'' \<and> c \<noteq> CHR ''.''"
  using is_digit_not_sign by (auto simp: py_str_int_def dest!: str_nat_chars split: if_splits)

lemma py_str_int_not_Nil: "py_str_int i \<noteq> []"
  by (simp add: py_str_int_def str_nat_not_Nil)

lemma replace_no_occurrence: "old \<noteq> [] \<Longrightarrow> hd old \<notin> set s \<Longrightarrow> replace old new s = s"
proof (induction s)
  case Nil
  then show ?case by simp
next
  case (Cons c cs)
  then have "\<not> prefix old (c # cs)" by (cases old) auto
  with Cons show ?case by simp
qed

lemma replace_submod_name: "replace ''submod_'' [] (submod_name i) = py_str_int i"
proof -
  obtain c cs where s: "py_str_int i = c # cs"
    using py_str_int_not_Nil [of i] by (cases "py_str_int i") auto
  have "CHR ''s'' \<notin> set (py_str_int i)" using py_str_int_chars by blast
  then have "replace ''submod_'' [] (py_str_int i) = py_str_int i"
    by (intro replace_no_occurrence) simp_all
  then show ?thesis by (simp add: submod_name_def)
qed

lemma py_int_submod_name: "py_int (replace ''submod_'' [] (submod_name i)) = Inr i"
  by (simp add: replace_submod_name py_int_py_str_int)

lemma submod_name_inj: "submod_name i = submod_name j \<Longrightarrow> i = j"
proof -
  assume "submod_name i = submod_name j"
  then have "py_int (replace ''submod_'' [] (submod_name i)) = py_int (replace ''submod_'' [] (submod_name j))"
    by (rule arg_cong)
  then show "i = j" by (simp only: py_int_submod_name sum.inject)
qed

lemma submod_name_no_dot: "CHR ''.'' \<notin> set (submod_name i)"
  using py_str_int_chars [of "CHR ''.''" i] by (auto simp: submod_name_def)

lemma submod_name_not_Nil: "submod_name i \<noteq> []"
  by (simp add: submod_name_def)

section \<open>Facts about the graph splitter\<close>

lemma first_occurrences_set: "set (first_occurrences seen xs) = set xs - set seen"
  by (induction seen xs rule: first_occurrences.induct) auto


lemma ask_callback_total:
  assumes "\<forall>kn \<in> set kns. \<not> structural (snd kn) \<longrightarrow> m (fst kn) \<noteq> None"
  shows "ask_callback (\<lambda>k. case m k of None \<Rightarrow> Inl KeyError | Some pid \<Rightarrow> Inr pid) kns =
         Inr (map (\<lambda>kn. (the (m (fst kn)), kn)) (filter (\<lambda>kn. \<not> structural (snd kn)) kns))"
  using assms
proof (induction kns)
  case Nil
  then show ?case by simp
next
  case (Cons kn kns)
  obtain k n where kn: "kn = (k, n)" by (cases kn)
  from Cons have IH: "ask_callback (\<lambda>k. case m k of None \<Rightarrow> Inl KeyError | Some pid \<Rightarrow> Inr pid) kns =
         Inr (map (\<lambda>kn. (the (m (fst kn)), kn)) (filter (\<lambda>kn. \<not> structural (snd kn)) kns))" by simp
  show ?case
  proof (cases "structural n")
    case True
    then show ?thesis using IH kn by simp
  next
    case False
    with Cons.prems kn obtain d where "m k = Some d" by auto
    then show ?thesis using False IH kn by simp
  qed
qed

lemma map_of_submodules:
  "pid \<in> set pids \<Longrightarrow> map_of (map (\<lambda>p. (submod_name p, g p)) pids) (submod_name pid) = Some (g pid)"
  by (induction pids) (auto dest: submod_name_inj)

lemma child_names_dotted: "name \<in> set (child_names sm) \<Longrightarrow> CHR ''.'' \<in> set name"
  by (auto simp: child_names_def)

lemma collect_outputs_skip:
  "\<forall>name \<in> set cs. CHR ''.'' \<in> set name \<Longrightarrow> collect_outputs gm sog (cs @ names) = collect_outputs gm sog names"
  by (induction cs) auto

lemma collect_outputs_submodules:
  assumes "set ps \<subseteq> set pids"
  shows "collect_outputs \<lparr>submodules = map (\<lambda>p. (submod_name p, g p)) pids\<rparr> sog
           (concat (map (\<lambda>sm. fst sm # child_names sm) (map (\<lambda>p. (submod_name p, g p)) ps))) =
         Inr (map (\<lambda>p. \<lparr>submod_name_of = submod_name p, graph_id = p,
                         is_splitting_graph = (p \<in> set sog), graph = g p\<rparr>) ps)"
  using assms
proof (induction ps)
  case Nil
  then show ?case by simp
next
  case (Cons p ps)
  then have p: "p \<in> set pids" and IH: "collect_outputs \<lparr>submodules = map (\<lambda>p. (submod_name p, g p)) pids\<rparr> sog
           (concat (map (\<lambda>sm. fst sm # child_names sm) (map (\<lambda>p. (submod_name p, g p)) ps))) =
         Inr (map (\<lambda>p. \<lparr>submod_name_of = submod_name p, graph_id = p,
                         is_splitting_graph = (p \<in> set sog), graph = g p\<rparr>) ps)" by simp_all
  have skip: "\<forall>name \<in> set (child_names (submod_name p, g p)). CHR ''.'' \<in> set name"
    using child_names_dotted by blast
  show ?case
    using IH
    by (simp add: submod_name_no_dot submod_name_not_Nil getattr_def map_of_submodules [OF p]
        py_int_submod_name collect_outputs_skip [OF skip])
qed

lemma assign_subgraphs_snoc:
  "assign_subgraphs ops (nodes @ [n]) = split_step ops (assign_subgraphs ops nodes) (length nodes, n)"
  by (simp add: assign_subgraphs_def enumerate_append_eq)

lemma splitting_not_structural: "is_splitting_op ops n \<Longrightarrow> \<not> structural n"
  by (auto simp: is_splitting_op_def structural_def)

lemma split_inv_init: "split_inv ops [] split_init"
  by (simp add: split_inv_def split_init_def)

lemma split_inv_step:
  assumes inv: "split_inv ops nodes s"
  shows "split_inv ops (nodes @ [n]) (split_step ops s (length nodes, n))"
proof -
  let ?m = "node_to_subgraph_id s"
  from inv have dom: "dom ?m = {k. k < length nodes \<and> \<not> structural (nodes ! k)}"
    and le: "\<And>k d. ?m k = Some d \<Longrightarrow> d \<le> subgraph_id s"
    and lt: "\<And>d. d \<in> set (split_op_graphs s) \<Longrightarrow> d < subgraph_id s"
    and iff: "\<And>k d. ?m k = Some d \<Longrightarrow> (d \<in> set (split_op_graphs s) \<longleftrightarrow> is_splitting_op ops (nodes ! k))"
    and uniq: "\<And>k k' d. ?m k = Some d \<Longrightarrow> ?m k' = Some d \<Longrightarrow> d \<in> set (split_op_graphs s) \<Longrightarrow> k = k'"
    and cur: "\<And>k d. ?m k = Some d \<Longrightarrow> (\<forall>j. k \<le> j \<and> j < length nodes \<longrightarrow> \<not> is_splitting_op ops (nodes ! j)) \<Longrightarrow> d = subgraph_id s"
    unfolding split_inv_def by blast+
  have old: "\<And>k d. ?m k = Some d \<Longrightarrow> k < length nodes"
    using dom by blast
  have fresh: "?m (length nodes) = None"
    using dom by blast
  consider (structural) "structural n"
    | (splitting) "\<not> structural n" "is_splitting_op ops n"
    | (regular) "\<not> structural n" "\<not> is_splitting_op ops n" by blast
  then show ?thesis
  proof cases
    case structural
    then have step: "split_step ops s (length nodes, n) = s"
      by (simp add: split_step_def structural_def)
    have ns: "\<not> is_splitting_op ops n" using structural splitting_not_structural by blast
    show ?thesis
      unfolding split_inv_def step
    proof (intro conjI allI impI ballI)
      show "dom ?m = {k. k < length (nodes @ [n]) \<and> \<not> structural ((nodes @ [n]) ! k)}"
        using dom structural by (auto simp: nth_append less_Suc_eq)
    next
      fix k d assume "?m k = Some d" then show "d \<le> subgraph_id s" by (rule le)
    next
      fix d assume "d \<in> set (split_op_graphs s)" then show "d < subgraph_id s" by (rule lt)
    next
      fix k d assume "?m k = Some d"
      then show "(d \<in> set (split_op_graphs s)) = is_splitting_op ops ((nodes @ [n]) ! k)"
        using iff old by (simp add: nth_append)
    next
      fix k k' d assume "?m k = Some d \<and> ?m k' = Some d \<and> d \<in> set (split_op_graphs s)"
      then show "k = k'" using uniq by blast
    next
      fix k d assume a: "?m k = Some d \<and> (\<forall>j. k \<le> j \<and> j < length (nodes @ [n]) \<longrightarrow> \<not> is_splitting_op ops ((nodes @ [n]) ! j))"
      then have "\<forall>j. k \<le> j \<and> j < length nodes \<longrightarrow> \<not> is_splitting_op ops (nodes ! j)"
        by (auto simp: nth_append split: if_splits)
      with a show "d = subgraph_id s" using cur by blast
    qed
  next
    case splitting
    let ?sid = "subgraph_id s + 1"
    define s' where "s' = split_step ops s (length nodes, n)"
    have step: "subgraph_id s' = ?sid + 1" "node_to_subgraph_id s' = ?m(length nodes \<mapsto> ?sid)"
        "split_op_graphs s' = split_op_graphs s @ [?sid]"
      using splitting by (simp_all add: s'_def split_step_def structural_def is_splitting_op_def Let_def)
    show ?thesis
      unfolding split_inv_def s'_def [symmetric] step
    proof (intro conjI allI impI ballI)
      show "dom (?m(length nodes \<mapsto> ?sid)) = {k. k < length (nodes @ [n]) \<and> \<not> structural ((nodes @ [n]) ! k)}"
        using dom splitting(1) by (auto simp: nth_append less_Suc_eq)
    next
      fix k d assume "(?m(length nodes \<mapsto> ?sid)) k = Some d"
      then show "d \<le> ?sid + 1" using le by (fastforce split: if_splits)
    next
      fix d assume "d \<in> set (split_op_graphs s @ [?sid])"
      then show "d < ?sid + 1" using lt by fastforce
    next
      fix k d assume a: "(?m(length nodes \<mapsto> ?sid)) k = Some d"
      show "(d \<in> set (split_op_graphs s @ [?sid])) = is_splitting_op ops ((nodes @ [n]) ! k)"
      proof (cases "k = length nodes")
        case True
        with a splitting(2) show ?thesis by simp
      next
        case False
        with a have m: "?m k = Some d" by simp
        then have "d \<noteq> ?sid" using le by fastforce
        then show ?thesis using iff [OF m] old [OF m] by (simp add: nth_append)
      qed
    next
      fix k k' d
      assume a: "(?m(length nodes \<mapsto> ?sid)) k = Some d \<and> (?m(length nodes \<mapsto> ?sid)) k' = Some d \<and>
                 d \<in> set (split_op_graphs s @ [?sid])"
      have ne: "\<And>j. ?m j \<noteq> Some ?sid" using le by fastforce
      show "k = k'"
      proof (cases "d = ?sid")
        case True
        with a ne show ?thesis by (auto split: if_splits)
      next
        case False
        with a have "?m k = Some d" "?m k' = Some d" "d \<in> set (split_op_graphs s)"
          by (auto split: if_splits)
        then show ?thesis by (rule uniq)
      qed
    next
      fix k d
      assume a: "(?m(length nodes \<mapsto> ?sid)) k = Some d \<and>
         (\<forall>j. k \<le> j \<and> j < length (nodes @ [n]) \<longrightarrow> \<not> is_splitting_op ops ((nodes @ [n]) ! j))"
      have "k \<le> length nodes" using a old by (cases "k = length nodes") (auto simp: less_imp_le)
      with a splitting(2) have False by (auto dest: spec [of _ "length nodes"])
      then show "d = ?sid + 1" ..
    qed
  next
    case regular
    define s' where "s' = split_step ops s (length nodes, n)"
    have step: "subgraph_id s' = subgraph_id s" "node_to_subgraph_id s' = ?m(length nodes \<mapsto> subgraph_id s)"
        "split_op_graphs s' = split_op_graphs s"
      using regular by (auto simp: s'_def split_step_def structural_def is_splitting_op_def Let_def)
    show ?thesis
      unfolding split_inv_def s'_def [symmetric] step
    proof (intro conjI allI impI ballI)
      show "dom (?m(length nodes \<mapsto> subgraph_id s)) = {k. k < length (nodes @ [n]) \<and> \<not> structural ((nodes @ [n]) ! k)}"
        using dom regular(1) by (auto simp: nth_append less_Suc_eq)
    next
      fix k d assume "(?m(length nodes \<mapsto> subgraph_id s)) k = Some d"
      then show "d \<le> subgraph_id s" using le by (auto split: if_splits)
    next
      fix d assume "d \<in> set (split_op_graphs s)" then show "d < subgraph_id s" by (rule lt)
    next
      fix k d assume a: "(?m(length nodes \<mapsto> subgraph_id s)) k = Some d"
      show "(d \<in> set (split_op_graphs s)) = is_splitting_op ops ((nodes @ [n]) ! k)"
      proof (cases "k = length nodes")
        case True
        with a have "d = subgraph_id s" by simp
        then have "d \<notin> set (split_op_graphs s)" using lt by blast
        with True regular(2) show ?thesis by simp
      next
        case False
        with a have m: "?m k = Some d" by simp
        then show ?thesis using iff [OF m] old [OF m] by (simp add: nth_append)
      qed
    next
      fix k k' d
      assume a: "(?m(length nodes \<mapsto> subgraph_id s)) k = Some d \<and>
                 (?m(length nodes \<mapsto> subgraph_id s)) k' = Some d \<and> d \<in> set (split_op_graphs s)"
      then have "d \<noteq> subgraph_id s" using lt by blast
      with a have "?m k = Some d" "?m k' = Some d" "d \<in> set (split_op_graphs s)"
        by (auto split: if_splits)
      then show "k = k'" by (rule uniq)
    next
      fix k d
      assume a: "(?m(length nodes \<mapsto> subgraph_id s)) k = Some d \<and>
         (\<forall>j. k \<le> j \<and> j < length (nodes @ [n]) \<longrightarrow> \<not> is_splitting_op ops ((nodes @ [n]) ! j))"
      show "d = subgraph_id s"
      proof (cases "k = length nodes")
        case True
        with a show ?thesis by simp
      next
        case False
        with a have m: "?m k = Some d" by simp
        from a have "\<forall>j. k \<le> j \<and> j < length nodes \<longrightarrow> \<not> is_splitting_op ops (nodes ! j)"
          by (auto simp: nth_append split: if_splits)
        with m show ?thesis using cur by blast
      qed
    qed
  qed
qed

lemma split_inv_assign: "split_inv ops nodes (assign_subgraphs ops nodes)"
proof (induction nodes rule: rev_induct)
  case Nil
  then show ?case by (simp add: assign_subgraphs_def split_inv_init)
next
  case (snoc n nodes)
  then show ?case by (simp only: assign_subgraphs_snoc split_inv_step)
qed

lemma tagged_partition:
  assumes "\<forall>kn \<in> set kns. \<not> structural (snd kn) \<longrightarrow> m (fst kn) \<noteq> None"
  shows "map snd (filter (\<lambda>t. fst t = pid)
           (map (\<lambda>kn. (the (m (fst kn)), kn)) (filter (\<lambda>kn. \<not> structural (snd kn)) kns))) =
         filter (\<lambda>kn. \<not> structural (snd kn) \<and> m (fst kn) = Some pid) kns"
  using assms by (induction kns) auto

lemma split_graph_eq:
  "split_graph nodes ops =
     Inr (\<lparr>submodules = map (\<lambda>pid. (submod_name pid,
                nodes_of_partition (node_to_subgraph_id (assign_subgraphs ops nodes)) nodes pid))
              (partition_ids (assign_subgraphs ops nodes) nodes)\<rparr>,
          sort_key graph_id (map (item_of_partition (assign_subgraphs ops nodes) nodes)
              (partition_ids (assign_subgraphs ops nodes) nodes)))"
proof -
  let ?st = "assign_subgraphs ops nodes"
  let ?m = "node_to_subgraph_id ?st"
  let ?cb = "\<lambda>k. case ?m k of None \<Rightarrow> Inl KeyError | Some pid \<Rightarrow> Inr pid"
  let ?ns = "filter (\<lambda>kn. \<not> structural (snd kn)) (enumerate 0 nodes)"
  let ?tagged = "map (\<lambda>kn. (the (?m (fst kn)), kn)) ?ns"
  let ?pids = "partition_ids ?st nodes"
  let ?g = "nodes_of_partition ?m nodes"
  have "dom ?m = {k. k < length nodes \<and> \<not> structural (nodes ! k)}"
    using split_inv_assign [of ops nodes] by (simp add: split_inv_def)
  then have def: "\<forall>kn \<in> set (enumerate 0 nodes). \<not> structural (snd kn) \<longrightarrow> ?m (fst kn) \<noteq> None"
    by (auto simp: in_set_enumerate_eq)
  have cb: "ask_callback ?cb (enumerate 0 nodes) = Inr ?tagged"
    using def by (rule ask_callback_total)
  have pids: "first_occurrences [] (map fst ?tagged) = ?pids"
    by (simp add: partition_ids_def comp_def)
  have g: "\<And>pid. map snd (filter (\<lambda>t. fst t = pid) ?tagged) = ?g pid"
    unfolding nodes_of_partition_def using def by (rule tagged_partition)
  have sm: "split_module nodes ?cb = Inr \<lparr>submodules = map (\<lambda>pid. (submod_name pid, ?g pid)) ?pids\<rparr>"
    unfolding split_module_def cb by (simp only: sum.case pids g)
  have names: "named_modules \<lparr>submodules = map (\<lambda>pid. (submod_name pid, ?g pid)) ?pids\<rparr> =
      [] # concat (map (\<lambda>sm. fst sm # child_names sm) (map (\<lambda>pid. (submod_name pid, ?g pid)) ?pids))"
    by (simp add: named_modules_def)
  have co: "collect_outputs \<lparr>submodules = map (\<lambda>pid. (submod_name pid, ?g pid)) ?pids\<rparr>
        (split_op_graphs ?st) (named_modules \<lparr>submodules = map (\<lambda>pid. (submod_name pid, ?g pid)) ?pids\<rparr>) =
      Inr (map (item_of_partition ?st nodes) ?pids)"
    unfolding names
    using collect_outputs_submodules [of ?pids ?pids ?g "split_op_graphs ?st"]
    by (simp add: item_of_partition_def)
  show ?thesis
    unfolding split_graph_def Let_def sm by (simp add: co)
qed

lemma partition_ids_set:
  "set (partition_ids (assign_subgraphs ops nodes) nodes) =
     {d. \<exists>k. node_to_subgraph_id (assign_subgraphs ops nodes) k = Some d}"
proof -
  let ?m = "node_to_subgraph_id (assign_subgraphs ops nodes)"
  have dom: "dom ?m = {k. k < length nodes \<and> \<not> structural (nodes ! k)}"
    using split_inv_assign [of ops nodes] by (simp add: split_inv_def)
  show ?thesis
  proof (intro set_eqI iffI)
    fix d assume "d \<in> set (partition_ids (assign_subgraphs ops nodes) nodes)"
    then obtain kn where kn: "kn \<in> set (enumerate 0 nodes)" "\<not> structural (snd kn)" "d = the (?m (fst kn))"
      by (auto simp: partition_ids_def first_occurrences_set)
    then have "fst kn \<in> dom ?m" unfolding dom by (auto simp: in_set_enumerate_eq)
    with kn show "d \<in> {d. \<exists>k. ?m k = Some d}" by auto
  next
    fix d assume "d \<in> {d. \<exists>k. ?m k = Some d}"
    then obtain k where k: "?m k = Some d" by blast
    then have "k \<in> dom ?m" by blast
    then have "k < length nodes" "\<not> structural (nodes ! k)" unfolding dom by auto
    then have "(k, nodes ! k) \<in> set (filter (\<lambda>kn. \<not> structural (snd kn)) (enumerate 0 nodes))"
      by (simp add: in_set_enumerate_eq)
    then have "the (?m (fst (k, nodes ! k))) \<in> (\<lambda>kn. the (?m (fst kn))) `
        set (filter (\<lambda>kn. \<not> structural (snd kn)) (enumerate 0 nodes))"
      by (rule imageI)
    with k show "d \<in> set (partition_ids (assign_subgraphs ops nodes) nodes)"
      by (simp add: partition_ids_def first_occurrences_set)
  qed
qed

lemma distinct_singleton: "distinct ys \<Longrightarrow> set ys = {x} \<Longrightarrow> ys = [x]"
proof (cases ys)
  case Nil
  assume "set ys = {x}" with Nil show ?thesis by simp
next
  case (Cons a as)
  assume d: "distinct ys" and s: "set ys = {x}"
  with Cons have "a = x" "set as \<subseteq> {x}" "x \<notin> set as" by auto
  then have "as = []" by (cases as) auto
  with Cons \<open>a = x\<close> show ?thesis by simp
qed

lemma filter_enumerate_single:
  assumes k: "k < length xs"
    and P: "\<forall>kn \<in> set (enumerate 0 xs). P kn \<longleftrightarrow> fst kn = k"
  shows "filter P (enumerate 0 xs) = [(k, xs ! k)]"
proof (rule distinct_singleton)
  show "distinct (filter P (enumerate 0 xs))" by simp
  show "set (filter P (enumerate 0 xs)) = {(k, xs ! k)}"
    using k P by (auto simp: in_set_enumerate_eq)
qed

lemma items_set:
  "set (sort_key graph_id (map (item_of_partition st nodes) pids)) = item_of_partition st nodes ` set pids"
  by simp

lemma in_nodes_of_partition:
  "kn \<in> set (nodes_of_partition m nodes d) \<longleftrightarrow>
     fst kn < length nodes \<and> snd kn = nodes ! fst kn \<and> \<not> structural (snd kn) \<and> m (fst kn) = Some d"
  by (auto simp: nodes_of_partition_def in_set_enumerate_eq)

text \<open>The partition of a boundary node holds that node and nothing else.\<close>

lemma splitting_partition:
  assumes k: "k < length nodes" and sp: "is_splitting_op ops (nodes ! k)"
  shows "\<exists>d. node_to_subgraph_id (assign_subgraphs ops nodes) k = Some d \<and>
             d \<in> set (split_op_graphs (assign_subgraphs ops nodes)) \<and>
             nodes_of_partition (node_to_subgraph_id (assign_subgraphs ops nodes)) nodes d = [(k, nodes ! k)]"
proof -
  let ?st = "assign_subgraphs ops nodes"
  let ?m = "node_to_subgraph_id ?st"
  have inv: "split_inv ops nodes ?st" by (rule split_inv_assign)
  then have dom: "dom ?m = {k. k < length nodes \<and> \<not> structural (nodes ! k)}"
    and iff: "\<And>k d. ?m k = Some d \<Longrightarrow> (d \<in> set (split_op_graphs ?st) \<longleftrightarrow> is_splitting_op ops (nodes ! k))"
    and uniq: "\<And>k k' d. ?m k = Some d \<Longrightarrow> ?m k' = Some d \<Longrightarrow> d \<in> set (split_op_graphs ?st) \<Longrightarrow> k = k'"
    unfolding split_inv_def by blast+
  have ns: "\<not> structural (nodes ! k)" using sp by (rule splitting_not_structural)
  with k have "k \<in> dom ?m" unfolding dom by simp
  then obtain d where d: "?m k = Some d" by blast
  with sp have sog: "d \<in> set (split_op_graphs ?st)" using iff by blast
  have "\<forall>kn \<in> set (enumerate 0 nodes).
          (\<not> structural (snd kn) \<and> ?m (fst kn) = Some d) \<longleftrightarrow> fst kn = k"
  proof
    fix kn assume kn: "kn \<in> set (enumerate 0 nodes)"
    show "(\<not> structural (snd kn) \<and> ?m (fst kn) = Some d) \<longleftrightarrow> fst kn = k"
    proof
      assume "\<not> structural (snd kn) \<and> ?m (fst kn) = Some d"
      then show "fst kn = k" using uniq [of "fst kn" d k] d sog by blast
    next
      assume "fst kn = k"
      with kn have "snd kn = nodes ! k" by (auto simp: in_set_enumerate_eq)
      with ns d \<open>fst kn = k\<close> show "\<not> structural (snd kn) \<and> ?m (fst kn) = Some d" by simp
    qed
  qed
  with k have "nodes_of_partition ?m nodes d = [(k, nodes ! k)]"
    unfolding nodes_of_partition_def by (rule filter_enumerate_single)
  with d sog show ?thesis by blast
qed















section \<open>Properties of the graph splitter\<close>

text \<open>
  C1. Boundary isolation: \<^verbatim>\<open>split_graph\<close> returns, for every graph and every list of
  boundary-op names, a list of items in which each boundary node has a partition of its
  own, marked \<^verbatim>\<open>is_splitting_graph\<close> and holding only that node; and every partition
  that holds a boundary node holds nothing else, so no other node shares it.
\<close>

theorem split_graph_boundary_isolation:
  "\<exists>gm items. split_graph nodes ops = Inr (gm, items) \<and>
     (\<forall>k<length nodes. is_splitting_op ops (nodes ! k) \<longrightarrow>
        (\<exists>it\<in>set items. is_splitting_graph it \<and> graph it = [(k, nodes ! k)])) \<and>
     (\<forall>it\<in>set items. \<forall>k<length nodes.
        is_splitting_op ops (nodes ! k) \<and> (k, nodes ! k) \<in> set (graph it) \<longrightarrow>
        is_splitting_graph it \<and> graph it = [(k, nodes ! k)])"
proof -
  let ?st = "assign_subgraphs ops nodes"
  let ?m = "node_to_subgraph_id ?st"
  let ?pids = "partition_ids ?st nodes"
  let ?items = "sort_key graph_id (map (item_of_partition ?st nodes) ?pids)"
  have items: "set ?items = item_of_partition ?st nodes ` set ?pids" by (rule items_set)
  have own: "\<exists>it\<in>set ?items. is_splitting_graph it \<and> graph it = [(k, nodes ! k)]"
    if k: "k < length nodes" and sp: "is_splitting_op ops (nodes ! k)" for k
  proof -
    from splitting_partition [OF k sp] obtain d where d: "?m k = Some d"
      "d \<in> set (split_op_graphs ?st)" "nodes_of_partition ?m nodes d = [(k, nodes ! k)]" by blast
    from d(1) have "d \<in> set ?pids" unfolding partition_ids_set by blast
    then have "item_of_partition ?st nodes d \<in> set ?items" unfolding items by blast
    moreover have "is_splitting_graph (item_of_partition ?st nodes d)"
      "graph (item_of_partition ?st nodes d) = [(k, nodes ! k)]"
      using d by (simp_all add: item_of_partition_def)
    ultimately show ?thesis by blast
  qed
  have alone: "is_splitting_graph it \<and> graph it = [(k, nodes ! k)]"
    if it: "it \<in> set ?items" and k: "k < length nodes" and sp: "is_splitting_op ops (nodes ! k)"
      and mem: "(k, nodes ! k) \<in> set (graph it)" for it k
  proof -
    from it obtain d where it_d: "it = item_of_partition ?st nodes d" unfolding items by blast
    with mem have "?m k = Some d" by (simp add: item_of_partition_def in_nodes_of_partition)
    moreover from splitting_partition [OF k sp] obtain d' where d': "?m k = Some d'"
      "d' \<in> set (split_op_graphs ?st)" "nodes_of_partition ?m nodes d' = [(k, nodes ! k)]" by blast
    ultimately have "d' = d" by simp
    with d' it_d show ?thesis by (simp add: item_of_partition_def)
  qed
  show ?thesis
    unfolding split_graph_eq [of nodes ops] using own alone by blast
qed

theorem split_graph_boundary_isolation_witness:
  "\<exists>gm items. split_graph
       [\<lparr>op = ''placeholder'', target = ''x''\<rparr>,
        \<lparr>op = ''call_function'', target = ''aten.add''\<rparr>,
        \<lparr>op = ''call_function'', target = ''vllm.unified_attention''\<rparr>,
        \<lparr>op = ''call_function'', target = ''aten.mul''\<rparr>,
        \<lparr>op = ''output'', target = ''output''\<rparr>]
       [''vllm.unified_attention''] = Inr (gm, items) \<and>
     (\<exists>it\<in>set items. is_splitting_graph it \<and>
        graph it = [(2, \<lparr>op = ''call_function'', target = ''vllm.unified_attention''\<rparr>)])"
proof -
  let ?nodes = "[\<lparr>op = ''placeholder'', target = ''x''\<rparr>,
        \<lparr>op = ''call_function'', target = ''aten.add''\<rparr>,
        \<lparr>op = ''call_function'', target = ''vllm.unified_attention''\<rparr>,
        \<lparr>op = ''call_function'', target = ''aten.mul''\<rparr>,
        \<lparr>op = ''output'', target = ''output''\<rparr>]"
  have k: "(2::nat) < length ?nodes" by simp
  have sp: "is_splitting_op [''vllm.unified_attention''] (?nodes ! 2)"
    by (simp add: is_splitting_op_def)
  from split_graph_boundary_isolation [of ?nodes "[''vllm.unified_attention'']"]
  obtain gm items where r: "split_graph ?nodes [''vllm.unified_attention''] = Inr (gm, items)"
    and own: "\<forall>k<length ?nodes. is_splitting_op [''vllm.unified_attention''] (?nodes ! k) \<longrightarrow>
        (\<exists>it\<in>set items. is_splitting_graph it \<and> graph it = [(k, ?nodes ! k)])"
    by blast
  from own k sp have "\<exists>it\<in>set items. is_splitting_graph it \<and> graph it = [(2, ?nodes ! 2)]"
    by blast
  then have "\<exists>it\<in>set items. is_splitting_graph it \<and>
        graph it = [(2, \<lparr>op = ''call_function'', target = ''vllm.unified_attention''\<rparr>)]" by simp
  with r show ?thesis by blast
qed






section \<open>Properties of the compiler manager\<close>

text \<open>
  C8. Timing of \<^verbatim>\<open>CompilerManager.compile\<close>: the start time is recorded (as the clock
  reading at entry) exactly when \<^verbatim>\<open>graph_index\<close> is 0; \<^verbatim>\<open>compilation_time\<close> changes only
  in a call with \<^verbatim>\<open>graph_index = num_graphs - 1\<close>, so every call with a smaller index
  leaves it unchanged; and a call for the last index that compiles adds the time elapsed
  since the recorded start.
\<close>

theorem compile_timing_frame:
  assumes "compile m w g x c graph_index num_graphs runtime_shape = (r, m', w')"
  shows "(graph_index = 0 \<longrightarrow> compilation_start_time w' = clock w (ticks w)) \<and>
         (graph_index \<noteq> 0 \<longrightarrow> compilation_start_time w' = compilation_start_time w) \<and>
         (compilation_time w' \<noteq> compilation_time w \<longrightarrow> graph_index = num_graphs - 1) \<and>
         (graph_index < num_graphs - 1 \<longrightarrow> compilation_time w' = compilation_time w) \<and>
         (graph_index = num_graphs - 1 \<and> load m g x graph_index runtime_shape = Inr None \<and>
          (\<exists>cg h. compiler_compile (compiler m) g x c runtime_shape
               (if is_inductor_adaptor (compiler m) then None
                else Some (artifact_key runtime_shape graph_index)) = Inr (Some cg, h)) \<longrightarrow>
          compilation_time w' = compilation_time w +
            (clock w (if graph_index = 0 then ticks w + 1 else ticks w) - compilation_start_time w'))"
  using assms
  by (auto simp: compile_def time_def Let_def split: sum.splits option.splits prod.splits if_splits)


theorem compile_timing_frame_witness:
  "compilation_start_time (snd (snd (compile (new_compiler_manager example_compiler) example_world
       [] () () 0 2 None))) = 5 \<and>
   compilation_time (snd (snd (compile (new_compiler_manager example_compiler) example_world
       [] () () 0 2 None))) = 0 \<and>
   compilation_start_time (snd (snd (compile (new_compiler_manager example_compiler) example_world
       [] () () 1 2 None))) = 1 \<and>
   compilation_time (snd (snd (compile (new_compiler_manager example_compiler) example_world
       [] () () 1 2 None))) = 4"
proof -
  let ?m = "new_compiler_manager example_compiler"
  let ?A = "compile ?m example_world [] () () 0 2 None"
  let ?B = "compile ?m example_world [] () () 1 2 None"
  have A: "?A = (fst ?A, fst (snd ?A), snd (snd ?A))" by simp
  have B: "?B = (fst ?B, fst (snd ?B), snd (snd ?B))" by simp
  have miss: "load ?m [] () 1 None = Inr None"
    by (simp add: load_def new_compiler_manager_def)
  have ok: "\<exists>cg h. compiler_compile (compiler ?m) [] () () None
               (if is_inductor_adaptor (compiler ?m) then None
                else Some (artifact_key None 1)) = Inr (Some cg, h)"
    by (simp add: new_compiler_manager_def example_compiler_def)
  from compile_timing_frame [OF A]
  have a1: "compilation_start_time (snd (snd ?A)) = clock example_world (ticks example_world)"
    and a2: "compilation_time (snd (snd ?A)) = compilation_time example_world"
    by simp_all
  from compile_timing_frame [OF B] miss ok
  have b1: "compilation_start_time (snd (snd ?B)) = compilation_start_time example_world"
    and b2: "compilation_time (snd (snd ?B)) = compilation_time example_world +
            (clock example_world (ticks example_world) - compilation_start_time (snd (snd ?B)))"
    by simp_all
  show ?thesis
    unfolding a1 a2 b2 b1 by (simp add: example_world_def)
qed

text \<open>
  C4 (amended). On a cache miss, \<^verbatim>\<open>compile\<close> calls the adaptor's \<^verbatim>\<open>compile\<close> once, with
  the key \<^verbatim>\<open>artifact_shape_<shape>_subgraph_<index>\<close> (no key for \<^verbatim>\<open>InductorAdaptor\<close>);
  it raises the assertion error and stores nothing when the adaptor returns no callable;
  otherwise it returns the callable and, when caching is not globally disabled and the
  returned handle is not \<^verbatim>\<open>None\<close>, stores the handle under
  \<^verbatim>\<open>(runtime_shape, graph_index, name)\<close> and sets \<^verbatim>\<open>is_cache_updated\<close>; with caching
  disabled or without a handle the manager is left as it was.
\<close>

theorem compile_miss_postcondition:
  assumes miss: "load m g x graph_index runtime_shape = Inr None"
    and res: "compile m w g x c graph_index num_graphs runtime_shape = (r, m', w')"
  shows "adaptor_compile_calls w' = adaptor_compile_calls w @
           [(g, runtime_shape, if is_inductor_adaptor (compiler m) then None
                               else Some (artifact_key runtime_shape graph_index))] \<and>
         (case compiler_compile (compiler m) g x c runtime_shape
                 (if is_inductor_adaptor (compiler m) then None
                  else Some (artifact_key runtime_shape graph_index)) of
            Inl e \<Rightarrow> r = Inl e \<and> m' = m
          | Inr (None, h) \<Rightarrow> r = Inl (AssertionError ''Failed to compile the graph'') \<and> m' = m
          | Inr (Some cg, h) \<Rightarrow>
              r = Inr cg \<and>
              (if \<not> VLLM_DISABLE_COMPILE_CACHE w \<and> h \<noteq> PyNone
               then m' = m\<lparr>cache := (cache m)((runtime_shape, graph_index,
                                                compiler_name (compiler m)) \<mapsto> h),
                            is_cache_updated := True\<rparr>
               else m' = m))"
  using res unfolding compile_def miss
  by (auto simp: time_def Let_def split: sum.splits option.splits prod.splits if_splits)

lemma artifact_key_example: "artifact_key None 0 = ''artifact_shape_None_subgraph_0''"
  by code_simp

theorem compile_miss_postcondition_witness:
  "cache (fst (snd (compile (new_compiler_manager example_compiler) example_world [] () () 0 1 None)))
     (None, 0, ''inductor_standalone'') = Some (PyStr ''artifact_shape_None_subgraph_0'') \<and>
   is_cache_updated (fst (snd (compile (new_compiler_manager example_compiler) example_world
     [] () () 0 1 None))) \<and>
   adaptor_compile_calls (snd (snd (compile (new_compiler_manager example_compiler) example_world
     [] () () 0 1 None))) = [([], None, Some ''artifact_shape_None_subgraph_0'')]"
proof -
  let ?m = "new_compiler_manager example_compiler"
  let ?A = "compile ?m example_world [] () () 0 1 None"
  have A: "?A = (fst ?A, fst (snd ?A), snd (snd ?A))" by simp
  have miss: "load ?m [] () 0 None = Inr None"
    by (simp add: load_def new_compiler_manager_def)
  have cc: "compiler_compile (compiler ?m) [] () () None
        (if is_inductor_adaptor (compiler ?m) then None else Some (artifact_key None 0)) =
      Inr (Some (Callable 0), PyStr ''artifact_shape_None_subgraph_0'')"
    by (simp add: new_compiler_manager_def example_compiler_def artifact_key_example)
  have en: "\<not> VLLM_DISABLE_COMPILE_CACHE example_world" by (simp add: example_world_def)
  from compile_miss_postcondition [OF miss A]
  have calls: "adaptor_compile_calls (snd (snd ?A)) = adaptor_compile_calls example_world @
           [([], None, if is_inductor_adaptor (compiler ?m) then None
                               else Some (artifact_key None 0))]"
    and m': "fst (snd ?A) = ?m\<lparr>cache := (cache ?m)((None, 0, compiler_name (compiler ?m)) \<mapsto>
                 PyStr ''artifact_shape_None_subgraph_0''), is_cache_updated := True\<rparr>"
    unfolding cc using en by simp_all
  show ?thesis
    unfolding calls m'
    by (simp add: new_compiler_manager_def example_compiler_def example_world_def artifact_key_example)
qed

text \<open>
  The claim as stated fails for an adaptor without a handle: the eager compiler returns a
  callable and \<^verbatim>\<open>None\<close> as handle; with caching enabled, the miss compiles, and nothing
  is stored and the dirty flag stays unset.
\<close>

theorem compile_miss_no_handle_counterexample:
  "load (new_compiler_manager eager_compiler) [] () 0 None = Inr None \<and>
   \<not> VLLM_DISABLE_COMPILE_CACHE example_world \<and>
   fst (compile (new_compiler_manager eager_compiler) example_world [] () () 0 1 None) =
     Inr (Callable 0) \<and>
   cache (fst (snd (compile (new_compiler_manager eager_compiler) example_world [] () () 0 1 None)))
     (None, 0, ''eager'') = None \<and>
   \<not> is_cache_updated (fst (snd (compile (new_compiler_manager eager_compiler) example_world
     [] () () 0 1 None)))"
  by (simp add: compile_def load_def new_compiler_manager_def eager_compiler_def example_world_def
      time_def Let_def)




section \<open>Facts about the backend\<close>























lemma path_join_inj: "path_join a b = path_join a c \<Longrightarrow> b = c"
  by (simp add: path_join_def split: if_splits)









section \<open>Properties of the backend\<close>







end
